theory Spec2Isabelle
  imports Complex_Main
begin

section \<open>Errors\<close>

text \<open>
  Every exception the modelled code can raise is a value of \<open>error\<close>; a function that can
  raise returns \<open>error + 'a\<close>, with \<open>Inl\<close> for the exception.
  \<open>ReadTimeout\<close> stands for the exceptions of \<open>requests.get\<close> that the \<open>except\<close> clause of
  \<open>KeepaAPI.request\<close> does not name.
\<close>

datatype error =
    ConnectionError
  | JSONDecodeError
  | ReadTimeout
  | KeepaException string
  | AssertionError string
  | KeyError string
  | TypeError
  | ValueError
  | OverflowError

section \<open>Keepa time series: \<open>formatted\<close>\<close>

text \<open>
  Python integers are unbounded, so raw Keepa minutes, Unix seconds and values are \<open>int\<close>.
  A raw series \<open>csv_data\<close> is a flat list \<open>[t0, v0, t1, v1, ...]\<close>.
  The two extended slices of the source, \<open>csv_data[0::2]\<close> and \<open>csv_data[1::2]\<close>,
  are the two functions below.
\<close>

fun even_items :: "'a list \<Rightarrow> 'a list" where
  "even_items [] = []"
| "even_items [x] = [x]"
| "even_items (x # y # xs) = x # even_items xs"

fun odd_items :: "'a list \<Rightarrow> 'a list" where
  "odd_items [] = []"
| "odd_items [x] = []"
| "odd_items (x # y # xs) = y # odd_items xs"

text \<open>
  The loop \<open>for i, timestamp in enumerate(timestamps): if timestamp > mintime: break\<close>.
  The third argument is the counter of \<open>enumerate\<close>, the fourth the current binding of
  the loop variable \<open>i\<close>, which keeps its last value when the loop runs to its end and
  its initial value when the list is empty.
\<close>

fun enumerate_until :: "int list \<Rightarrow> int \<Rightarrow> nat \<Rightarrow> nat \<Rightarrow> nat" where
  "enumerate_until [] mintime n i = i"
| "enumerate_until (timestamp # rest) mintime n i =
     (if timestamp > mintime then n else enumerate_until rest mintime (Suc n) n)"

text \<open>
  Lines 79 to 84: the index \<open>i\<close> at which the returned suffix starts. \<open>if mintime\<close> is a
  test for a value other than zero, and \<open>(i - 1) if i else 0\<close> never goes below zero.
\<close>

definition start_index :: "int list \<Rightarrow> int \<Rightarrow> nat" where
  "start_index timestamps mintime =
     (if mintime \<noteq> 0
      then (let i = enumerate_until timestamps mintime 0 0 in if i \<noteq> 0 then i - 1 else 0)
      else 0)"

text \<open>
  Lines 73 to 85. The empty tuple and the list that the source returns are both the
  sequence of \<open>(timestamp, value)\<close> pairs; \<open>zip\<close> stops at the shorter argument.
\<close>

definition formatted :: "int list \<Rightarrow> int \<Rightarrow> (int \<times> int) list" where
  "formatted csv_data mintime =
     (if csv_data = [] then []
      else
        (let timestamps = map (\<lambda>t. (t + 21564000) * 60) (even_items csv_data);
             values = odd_items csv_data;
             i = start_index timestamps mintime
         in zip (drop i timestamps) (drop i values)))"

section \<open>Daily interpolation: \<open>gmdate\<close> and \<open>interpolate\<close>\<close>

text \<open>
  A \<open>datetime.date\<close> is modelled by its day number relative to 1970-01-01
  (\<open>date.toordinal() - 719163\<close>). The calendar maps dates to day numbers one to one and in
  order, and the code only compares dates and adds \<open>timedelta(days=1)\<close>, which is \<open>+ 1\<close>
  on day numbers; \<open>(a - b).days\<close> is the difference of the day numbers.
  \<open>datetime.date\<close> represents 0001-01-01 to 9999-12-31, the day numbers \<open>date_min\<close> to
  \<open>date_max\<close>.
\<close>

type_synonym date = int

definition date_min :: date where
  "date_min = - 719162"

definition date_max :: date where
  "date_max = 2932896"

text \<open>
  \<open>gmdate\<close> takes the UTC date of a Unix timestamp: \<open>time.gmtime\<close> splits the seconds at
  multiples of 86400 (rounding down, also before 1970), and building the
  \<open>datetime.date\<close> raises \<open>ValueError\<close> when the year is outside 1 to 9999. Far
  outside that range \<open>time.gmtime\<close> itself raises; the model has the one error value for
  every timestamp without a date.
\<close>

definition gmdate :: "int \<Rightarrow> error + date" where
  "gmdate timestamp =
     (let d = timestamp div 86400
      in if date_min \<le> d \<and> d \<le> date_max then Inr d else Inl ValueError)"

text \<open>\<open>date1 + day\<close>: adding a day to 9999-12-31 raises.\<close>

definition add_day :: "date \<Rightarrow> error + date" where
  "add_day d = (if d + 1 \<le> date_max then Inr (d + 1) else Inl OverflowError)"

text \<open>
  The reducer \<open>func\<close> is any function from a list of values to a value that may raise.
  The default is the builtin \<open>min\<close>, which raises on an empty list.
\<close>

definition py_min :: "int list \<Rightarrow> error + int" where
  "py_min values = (case values of [] \<Rightarrow> Inl ValueError | v # vs \<Rightarrow> Inr (fold min vs v))"

text \<open>
  Lines 114 to 123, the inner \<open>while True\<close>: \<open>data\<close> is what the iterator has left.
  \<open>StopIteration\<close> leaves \<open>date2\<close> and \<open>value2\<close> as they are; a sample of another day
  is consumed into \<open>date2\<close>, \<open>value2\<close> and ends the loop.
  The result is \<open>(date2, value2, values, data)\<close> after the loop.
\<close>

fun same_day_loop ::
  "date \<Rightarrow> date \<Rightarrow> int \<Rightarrow> int list \<Rightarrow> (int \<times> int) list
     \<Rightarrow> error + (date \<times> int \<times> int list \<times> (int \<times> int) list)" where
  "same_day_loop date1 date2 value2 values [] = Inr (date2, value2, values, [])"
| "same_day_loop date1 date2 value2 values ((timestamp2, value2') # data) =
     (case gmdate timestamp2 of
        Inl e \<Rightarrow> Inl e
      | Inr date2' \<Rightarrow>
          if date1 = date2' then same_day_loop date1 date2' value2' (values @ [value2']) data
          else Inr (date2', value2', values, data))"

text \<open>
  Lines 112 to 124, the body of the outer loop before \<open>results.append\<close>: the new
  \<open>(value1, date2, value2, data)\<close>.
\<close>

definition day_body ::
  "(int list \<Rightarrow> error + int) \<Rightarrow> date \<Rightarrow> date \<Rightarrow> int \<Rightarrow> int \<Rightarrow> (int \<times> int) list
     \<Rightarrow> error + (int \<times> date \<times> int \<times> (int \<times> int) list)" where
  "day_body func date1 date2 value1 value2 data =
     (if date1 = date2 then
        (case same_day_loop date1 date2 value2 [value2] data of
           Inl e \<Rightarrow> Inl e
         | Inr (date2', value2', values, data') \<Rightarrow>
             (case func values of
                Inl e \<Rightarrow> Inl e
              | Inr value1' \<Rightarrow> Inr (value1', date2', value2', data')))
      else Inr (value1, date2, value2, data))"

text \<open>Lines 111 to 127, \<open>while date1 <= today\<close>.\<close>

function day_loop ::
  "(int list \<Rightarrow> error + int) \<Rightarrow> date \<Rightarrow> date \<Rightarrow> date \<Rightarrow> int \<Rightarrow> int \<Rightarrow> (int \<times> int) list
     \<Rightarrow> (date \<times> int) list \<Rightarrow> error + (date \<times> int) list" where
  "day_loop func today date1 date2 value1 value2 data results =
     (if date1 \<le> today then
        (case day_body func date1 date2 value1 value2 data of
           Inl e \<Rightarrow> Inl e
         | Inr (value1', date2', value2', data') \<Rightarrow>
             (case add_day date1 of
                Inl e \<Rightarrow> Inl e
              | Inr date1' \<Rightarrow>
                  day_loop func today date1' date2' value1' value2' data'
                    (results @ [(date1, value1')])))
      else Inr results)"
  by pat_completeness auto
termination
  by (relation "measure (\<lambda>(func, today, date1, rest). nat (today + 1 - date1))")
     (auto simp: add_day_def split: if_splits)

declare day_loop.simps [simp del]

text \<open>
  \<open>today\<close> is the value of \<open>datetime.date.today()\<close>, which the code reads from the host's
  clock; it is an input of the model.
\<close>

definition interpolate ::
  "int list \<Rightarrow> (int list \<Rightarrow> error + int) \<Rightarrow> date \<Rightarrow> error + (date \<times> int) list" where
  "interpolate csv_data func today =
     (case formatted csv_data 0 of
        [] \<Rightarrow> Inr []
      | (timestamp1, value1) # data \<Rightarrow>
          (case gmdate timestamp1 of
             Inl e \<Rightarrow> Inl e
           | Inr date1 \<Rightarrow> day_loop func today date1 date1 value1 value1 data []))"

section \<open>The transport: \<open>KeepaAPI.request\<close>\<close>

text \<open>
  The body that \<open>json.loads\<close> decodes. The numbers of the protocol are integers
  (\<open>refillIn\<close>, \<open>tokensLeft\<close>), so JSON numbers are \<open>int\<close>; an object is the list of its
  items, looked up by key.
\<close>

datatype json =
    JNull
  | JInt int
  | JStr string
  | JArr "json list"
  | JObj "(string \<times> json) list"

text \<open>
  The network is a script: the list of what the coming calls of \<open>requests.get(url)\<close>
  followed by \<open>json.loads(self.response.text)\<close> will do, one outcome per call.
  \<open>Raises e\<close>: \<open>requests.get\<close> raises \<open>e\<close>. \<open>Unparsable status\<close>: a response arrives and
  its text is not JSON. \<open>Parsed status data\<close>: a response arrives with that status code and
  its text decodes to \<open>data\<close>.
\<close>

datatype outcome =
    Raises error
  | Unparsable int
  | Parsed int json

text \<open>
  What the caller can observe besides the result: the requests issued and the sleeps, in
  order. A request is kept as its path and query rather than as the encoded URL.
\<close>

type_synonym query = "(string \<times> string) list"

record world =
  gets :: "(string \<times> query) list"
  sleeps :: "int list"

definition STATUS_CODES :: "(int \<times> string) list" where
  "STATUS_CODES =
     [(400, ''Bad Request the request was malformed or could not successfully execute.''),
      (402, ''The used API key does not grant access.''),
      (405, ''A request parameter is out of allowed range.''),
      (429, ''You are out of tokens.''),
      (500, ''An unexpected error occurred when executing this request.'')]"

text \<open>\<open>str\<close> of an integer, for \<open>format\<close> and for the query's values.\<close>

fun digits :: "nat \<Rightarrow> string" where
  "digits n =
     (if n < 10 then [''0123456789'' ! n]
      else digits (n div 10) @ [''0123456789'' ! (n mod 10)])"

declare digits.simps [simp del]

definition py_str :: "int \<Rightarrow> string" where
  "py_str n = (if n < 0 then CHR ''-'' # digits (nat (- n)) else digits (nat n))"

text \<open>\<open>data[k]\<close>: \<open>KeyError\<close> on a dictionary without the key, \<open>TypeError\<close> elsewhere.\<close>

definition getitem :: "json \<Rightarrow> string \<Rightarrow> error + json" where
  "getitem data k =
     (case data of
        JObj items \<Rightarrow> (case map_of items k of None \<Rightarrow> Inl (KeyError k) | Some v \<Rightarrow> Inr v)
      | _ \<Rightarrow> Inl TypeError)"

text \<open>
  \<open>math.ceil(refillIn / 1000)\<close>. The source divides in floating point and then rounds
  up; the model rounds the exact quotient up, which is the same integer for every
  \<open>refillIn\<close> below \<open>2 ^ 53\<close> in absolute value.
\<close>

definition ceil_div_1000 :: "json \<Rightarrow> error + int" where
  "ceil_div_1000 v = (case v of JInt r \<Rightarrow> Inr (- ((- r) div 1000)) | _ \<Rightarrow> Inl TypeError)"

text \<open>\<open>time.sleep(secs)\<close> raises \<open>ValueError\<close> on a negative length.\<close>

definition sleep :: "int \<Rightarrow> world \<Rightarrow> error + world" where
  "sleep secs w = (if secs < 0 then Inl ValueError else Inr (w\<lparr>sleeps := sleeps w @ [secs]\<rparr>))"

text \<open>The exceptions that \<open>except (ConnectionError, JSONDecodeError)\<close> catches.\<close>

definition caught :: "error \<Rightarrow> bool" where
  "caught e = (e = ConnectionError \<or> e = JSONDecodeError)"

text \<open>Lines 254 to 256, one pass through the \<open>try\<close> block.\<close>

definition attempt :: "outcome \<Rightarrow> error + (int \<times> json)" where
  "attempt oc =
     (case oc of
        Raises e \<Rightarrow> Inl e
      | Unparsable status_code \<Rightarrow> Inl JSONDecodeError
      | Parsed status_code data \<Rightarrow> Inr (status_code, data))"

text \<open>
  Lines 252 to 263, the inner \<open>while True\<close>, entered with \<open>counter\<close>. The result is
  \<open>None\<close> when the script ends while the loop still waits for the network; otherwise it is
  the exception that leaves \<open>request\<close>, or the status code and decoded body of the response
  that ended the loop. The rest of the script and the world are returned with it.
\<close>

fun retry_loop ::
  "string \<times> query \<Rightarrow> int \<Rightarrow> outcome list \<Rightarrow> world
     \<Rightarrow> (error + (int \<times> json)) option \<times> outcome list \<times> world" where
  "retry_loop url counter [] w = (None, [], w)"
| "retry_loop url counter (oc # script) w =
     (let w = w\<lparr>gets := gets w @ [url]\<rparr> in
      case attempt oc of
        Inr response \<Rightarrow> (Some (Inr response), script, w)
      | Inl e \<Rightarrow>
          if caught e then
            (let counter = counter - 1 in
             if counter = 0 then (Some (Inl e), script, w)
             else retry_loop url counter script (w\<lparr>sleeps := sleeps w @ [30]\<rparr>))
          else (Some (Inl e), script, w))"

lemma retry_loop_shorter:
  "retry_loop url counter script w = (Some r, script', w') \<Longrightarrow> length script' < length script"
proof (induction script arbitrary: counter w)
  case Nil
  then show ?case by simp
next
  case (Cons oc script)
  show ?case
  proof (cases "attempt oc")
    case (Inr response)
    with Cons.prems show ?thesis by (simp add: Let_def)
  next
    case (Inl e)
    show ?thesis
    proof (cases "caught e \<and> counter - 1 \<noteq> 0")
      case True
      with Cons.prems Inl have "retry_loop url (counter - 1) script
          (w\<lparr>gets := gets w @ [url], sleeps := sleeps w @ [30]\<rparr>) = (Some r, script', w')"
        by (simp add: Let_def)
      then have "length script' < length script" by (rule Cons.IH)
      then show ?thesis by simp
    next
      case False
      with Cons.prems Inl show ?thesis by (auto simp: Let_def split: if_splits)
    qed
  qed
qed

text \<open>
  Lines 250 to 277, the outer \<open>while True\<close>: each pass starts the inner loop with
  \<open>counter = 3\<close> and then looks at \<open>self.response.status_code\<close>, the status code of the
  response that ended the inner loop. The result is \<open>None\<close> when the script ends before the
  request is settled.
\<close>

function request_loop ::
  "string \<times> query \<Rightarrow> outcome list \<Rightarrow> world
     \<Rightarrow> (error + json) option \<times> outcome list \<times> world" where
  "request_loop url script w =
     (case retry_loop url 3 script w of
        (None, script', w') \<Rightarrow> (None, script', w')
      | (Some (Inl e), script', w') \<Rightarrow> (Some (Inl e), script', w')
      | (Some (Inr (status_code, data)), script', w') \<Rightarrow>
          if status_code = 200 then (Some (Inr data), script', w')
          else
            (case map_of STATUS_CODES status_code of
               Some error \<Rightarrow>
                 if status_code = 429 then
                   (case getitem data ''refillIn'' of
                      Inl e \<Rightarrow> (Some (Inl e), script', w')
                    | Inr refillIn \<Rightarrow>
                        (case ceil_div_1000 refillIn of
                           Inl e \<Rightarrow> (Some (Inl e), script', w')
                         | Inr delay \<Rightarrow>
                             (case getitem data ''tokensLeft'' of
                                Inl e \<Rightarrow> (Some (Inl e), script', w')
                              | Inr tokensLeft \<Rightarrow>
                                  (case sleep delay w' of
                                     Inl e \<Rightarrow> (Some (Inl e), script', w')
                                   | Inr w'' \<Rightarrow> request_loop url script' w''))))
                 else (Some (Inl (KeepaException error)), script', w')
             | None \<Rightarrow>
                 (Some (Inl (KeepaException
                    (''Unknown status code '' @ [CHR 0x22] @ py_str status_code @ [CHR 0x22]))),
                  script', w')))"
  by pat_completeness auto
termination
  by (relation "measure (\<lambda>(url, script, w). length script)")
     (auto dest: retry_loop_shorter [OF sym])

declare request_loop.simps [simp del]

definition request ::
  "string \<Rightarrow> query \<Rightarrow> outcome list \<Rightarrow> world
     \<Rightarrow> (error + json) option \<times> outcome list \<times> world" where
  "request path query script w = request_loop (path, query) script w"

section \<open>The call builders\<close>

text \<open>
  The instance fields that the builders read. The arguments are typed as the docstrings
  give them; where the source inspects the type of an argument, the argument is a
  datatype with one constructor per branch.
\<close>

record KeepaAPI =
  key :: string
  domain :: int











section \<open>Properties of \<open>formatted\<close>\<close>

lemma length_even_items: "length (even_items xs) = (length xs + 1) div 2"
  by (induction xs rule: even_items.induct) simp_all

lemma length_odd_items: "length (odd_items xs) = length xs div 2"
  by (induction xs rule: odd_items.induct) simp_all

lemma even_items_nth: "2 * j < length xs \<Longrightarrow> even_items xs ! j = xs ! (2 * j)"
proof (induction xs arbitrary: j rule: even_items.induct)
  case (3 x y xs)
  then show ?case by (cases j) simp_all
qed simp_all

lemma odd_items_nth: "2 * j + 1 < length xs \<Longrightarrow> odd_items xs ! j = xs ! (2 * j + 1)"
proof (induction xs arbitrary: j rule: odd_items.induct)
  case (3 x y xs)
  then show ?case by (cases j) simp_all
qed simp_all

lemma formatted_zero:
  "formatted csv_data 0 =
     zip (map (\<lambda>t. (t + 21564000) * 60) (even_items csv_data)) (odd_items csv_data)"
  by (simp add: formatted_def start_index_def)

lemma formatted_drop:
  "formatted csv_data mintime =
     drop (start_index (map (\<lambda>t. (t + 21564000) * 60) (even_items csv_data)) mintime)
       (formatted csv_data 0)"
  by (simp add: formatted_def start_index_def Let_def drop_zip)

lemma length_formatted_zero: "length (formatted csv_data 0) = length csv_data div 2"
  by (simp add: formatted_zero length_even_items length_odd_items)

lemma formatted_zero_nth:
  assumes "j < length csv_data div 2"
  shows "formatted csv_data 0 ! j = ((csv_data ! (2 * j) + 21564000) * 60, csv_data ! (2 * j + 1))"
proof -
  have a: "2 * j < length csv_data" and b: "2 * j + 1 < length csv_data"
    using assms by auto
  have "j < length (even_items csv_data)" "j < length (odd_items csv_data)"
    using assms by (simp_all add: length_even_items length_odd_items)
  then show ?thesis
    using a b by (simp add: formatted_zero even_items_nth odd_items_nth)
qed

lemma formatted_set:
  assumes "p \<in> set (formatted csv_data mintime)"
  shows "\<exists>j < length csv_data div 2.
           p = ((csv_data ! (2 * j) + 21564000) * 60, csv_data ! (2 * j + 1))"
proof -
  have "p \<in> set (formatted csv_data 0)"
    using assms formatted_drop [of csv_data mintime] by (auto dest: in_set_dropD)
  then obtain j where "j < length (formatted csv_data 0)" "p = formatted csv_data 0 ! j"
    by (auto simp: in_set_conv_nth)
  then show ?thesis
    by (auto simp: length_formatted_zero formatted_zero_nth)
qed

text \<open>
  C8. Every timestamp that \<open>formatted\<close> returns is the raw timestamp decoded as
  \<open>(t + 21564000) * 60\<close>: each returned pair, for any \<open>mintime\<close>, is a pair of the raw
  series with its timestamp decoded so. On the empty series the result is empty, and with
  \<open>mintime = 0\<close> the result holds all \<open>len(csv_data) / 2\<close> pairs, the \<open>j\<close>-th being raw
  items \<open>2j\<close> and \<open>2j + 1\<close>.
\<close>

theorem formatted_decodes_every_pair:
  "formatted [] mintime = []
   \<and> length (formatted csv_data 0) = length csv_data div 2
   \<and> (\<forall>j < length csv_data div 2.
         formatted csv_data 0 ! j
           = ((csv_data ! (2 * j) + 21564000) * 60, csv_data ! (2 * j + 1)))
   \<and> (\<forall>p \<in> set (formatted csv_data mintime).
         \<exists>j < length csv_data div 2.
           p = ((csv_data ! (2 * j) + 21564000) * 60, csv_data ! (2 * j + 1)))"
proof -
  have "formatted [] mintime = []"
    by (simp add: formatted_def)
  moreover have "length (formatted csv_data 0) = length csv_data div 2"
    by (rule length_formatted_zero)
  moreover have "\<forall>j < length csv_data div 2.
      formatted csv_data 0 ! j = ((csv_data ! (2 * j) + 21564000) * 60, csv_data ! (2 * j + 1))"
    by (simp add: formatted_zero_nth)
  moreover have "\<forall>p \<in> set (formatted csv_data mintime).
      \<exists>j < length csv_data div 2.
        p = ((csv_data ! (2 * j) + 21564000) * 60, csv_data ! (2 * j + 1))"
    using formatted_set by blast
  ultimately show ?thesis by blast
qed

theorem formatted_decodes_every_pair_witness:
  "length (formatted [0, 100, 1440, 50] 0) = 2
   \<and> formatted [0, 100, 1440, 50] 0 ! 1 = (1293926400, 50)
   \<and> (1293926400, 50) \<in> set (formatted [0, 100, 1440, 50] 1293926400)"
proof -
  note t = formatted_decodes_every_pair [of 1293926400 "[0, 100, 1440, 50]"]
  have a: "length (formatted [0, 100, 1440, 50] 0) = 2"
    using t by simp
  have "(1::nat) < length [0, 100, 1440, 50::int] div 2"
    by simp
  with t have b: "formatted [0, 100, 1440, 50] 0 ! 1 = (1293926400, 50)"
    by fastforce
  have c: "(1293926400, 50) \<in> set (formatted [0, 100, 1440, 50] 1293926400)"
    by (simp add: formatted_def start_index_def)
  from a b c show ?thesis by blast
qed

lemma enumerate_until_none:
  "\<forall>t \<in> set ts. t \<le> mintime \<Longrightarrow>
     enumerate_until ts mintime n i = (if ts = [] then i else n + length ts - 1)"
  by (induction ts arbitrary: n i) auto


lemma map_fst_formatted_zero:
  "even (length csv_data) \<Longrightarrow>
     map fst (formatted csv_data 0) = map (\<lambda>t. (t + 21564000) * 60) (even_items csv_data)"
  by (auto simp: formatted_zero length_even_items length_odd_items elim!: evenE)

lemma formatted_drop_fst:
  "even (length csv_data) \<Longrightarrow>
     formatted csv_data mintime =
       drop (start_index (map fst (formatted csv_data 0)) mintime) (formatted csv_data 0)"
  using formatted_drop [of csv_data mintime] by (simp add: map_fst_formatted_zero)

lemma formatted_all_before:
  assumes "even (length csv_data)" and "mintime \<noteq> 0"
    and "\<forall>p \<in> set (formatted csv_data 0). fst p \<le> mintime"
  shows "formatted csv_data mintime
           = drop (length csv_data div 2 - 2) (formatted csv_data 0)"
proof -
  let ?ts = "map fst (formatted csv_data 0)"
  have len: "length ?ts = length csv_data div 2"
    by (simp add: length_formatted_zero)
  have "\<forall>t \<in> set ?ts. t \<le> mintime" using assms(3) by auto
  then have "enumerate_until ?ts mintime 0 0 = (if ?ts = [] then 0 else 0 + length ?ts - 1)"
    by (rule enumerate_until_none)
  then have "start_index ?ts mintime = length csv_data div 2 - 2"
    using assms(2) len by (auto simp: start_index_def Let_def)
  then show ?thesis using formatted_drop_fst [OF assms(1), of mintime] by simp
qed


lemma drop_last_two:
  assumes "2 \<le> length xs"
  shows "drop (length xs - 2) xs = [xs ! (length xs - 2), xs ! (length xs - 1)]"
proof -
  have "length (drop (length xs - 2) xs) = 2" using assms by simp
  moreover have "drop (length xs - 2) xs ! 0 = xs ! (length xs - 2)"
    using assms by simp
  moreover have "drop (length xs - 2) xs ! 1 = xs ! (length xs - 1)"
  proof -
    have "length xs - 2 + 1 = length xs - 1" using assms by linarith
    then show ?thesis using assms by (simp del: One_nat_def)
  qed
  ultimately show ?thesis
    by (auto simp: list_eq_iff_nth_eq less_Suc_eq numeral_2_eq_2)
qed

text \<open>
  C10. When the series has an even length and at least two pairs, \<open>mintime\<close> is not zero
  and no decoded timestamp exceeds it, the loop over the timestamps ends without a
  \<open>break\<close>, \<open>i\<close> is left at the last index and is then stepped back by one: the result
  is exactly the last two pairs, decoded. With exactly one pair, that pair is returned.
\<close>

theorem formatted_cutoff_after_all_samples:
  assumes "even (length csv_data)" and "mintime \<noteq> 0"
    and "\<forall>p \<in> set (formatted csv_data 0). fst p \<le> mintime"
  shows "(2 \<le> length csv_data div 2 \<longrightarrow>
            formatted csv_data mintime =
              [((csv_data ! (length csv_data - 4) + 21564000) * 60, csv_data ! (length csv_data - 3)),
               ((csv_data ! (length csv_data - 2) + 21564000) * 60, csv_data ! (length csv_data - 1))])
       \<and> (length csv_data div 2 = 1 \<longrightarrow>
            formatted csv_data mintime = [((csv_data ! 0 + 21564000) * 60, csv_data ! 1)])"
proof (intro conjI impI)
  let ?f = "formatted csv_data 0"
  let ?n = "length csv_data div 2"
  have eq: "formatted csv_data mintime = drop (?n - 2) ?f"
    using assms by (rule formatted_all_before)
  have len: "length ?f = ?n" by (rule length_formatted_zero)
  have twice: "length csv_data = 2 * ?n" using assms(1) by auto
  {
    assume two: "2 \<le> ?n"
    then have "drop (?n - 2) ?f = [?f ! (?n - 2), ?f ! (?n - 1)]"
      using drop_last_two [of ?f] len by simp
    moreover have "?f ! (?n - 2) =
        ((csv_data ! (2 * (?n - 2)) + 21564000) * 60, csv_data ! (2 * (?n - 2) + 1))"
      using two by (intro formatted_zero_nth) simp
    moreover have "?f ! (?n - 1) =
        ((csv_data ! (2 * (?n - 1)) + 21564000) * 60, csv_data ! (2 * (?n - 1) + 1))"
      using two by (intro formatted_zero_nth) simp
    moreover have "2 * (?n - 2) = length csv_data - 4" "2 * (?n - 2) + 1 = length csv_data - 3"
      "2 * (?n - 1) = length csv_data - 2" "2 * (?n - 1) + 1 = length csv_data - 1"
      using two twice by linarith+
    ultimately show "formatted csv_data mintime =
        [((csv_data ! (length csv_data - 4) + 21564000) * 60, csv_data ! (length csv_data - 3)),
         ((csv_data ! (length csv_data - 2) + 21564000) * 60, csv_data ! (length csv_data - 1))]"
      using eq by simp
  }
  {
    assume one: "?n = 1"
    then have "drop (?n - 2) ?f = [?f ! 0]"
      using len by (cases ?f) auto
    moreover have "?f ! 0 = ((csv_data ! (2 * 0) + 21564000) * 60, csv_data ! (2 * 0 + 1))"
      using one by (intro formatted_zero_nth) simp
    ultimately show "formatted csv_data mintime = [((csv_data ! 0 + 21564000) * 60, csv_data ! 1)]"
      using eq by simp
  }
qed

theorem formatted_cutoff_after_all_samples_witness:
  "formatted [0, 5, 1, 6, 2, 7] 1293840120 = [(1293840060, 6), (1293840120, 7)]
   \<and> formatted [0, 5, 1, 6, 2, 7] 1293840120 \<noteq> []
   \<and> formatted [0, 5, 1, 6, 2, 7] 1293840120 \<noteq> [(1293840120, 7)]
   \<and> formatted [2, 7] 1293840120 = [(1293840120, 7)]"
proof -
  have h3: "\<forall>p \<in> set (formatted [0, 5, 1, 6, 2, 7] 0). fst p \<le> 1293840120"
    by (simp add: formatted_zero)
  have h1: "\<forall>p \<in> set (formatted [2, 7] 0). fst p \<le> 1293840120"
    by (simp add: formatted_zero)
  have a: "formatted [0, 5, 1, 6, 2, 7] 1293840120 = [(1293840060, 6), (1293840120, 7)]"
    using formatted_cutoff_after_all_samples [of "[0, 5, 1, 6, 2, 7]" 1293840120, OF _ _ h3]
    by simp
  have b: "formatted [2, 7] 1293840120 = [(1293840120, 7)]"
    using formatted_cutoff_after_all_samples [of "[2, 7]" 1293840120, OF _ _ h1]
    by simp
  from a b show ?thesis by simp
qed







section \<open>Properties of the transport\<close>

lemma retry_loop_parsed:
  "retry_loop url counter (Parsed status_code data # script) w
     = (Some (Inr (status_code, data)), script, w\<lparr>gets := gets w @ [url]\<rparr>)"
  by (simp add: attempt_def)

lemma retry_loop_caught:
  assumes "attempt oc = Inl e" and "caught e"
  shows "retry_loop url counter (oc # script) w =
           (if counter - 1 = 0 then (Some (Inl e), script, w\<lparr>gets := gets w @ [url]\<rparr>)
            else retry_loop url (counter - 1) script
                   (w\<lparr>gets := gets w @ [url], sleeps := sleeps w @ [30]\<rparr>))"
  using assms by (simp add: Let_def)

declare retry_loop.simps(2) [simp del]

lemma retry_loop_two_then_parsed:
  assumes "attempt a = Inl ea" "caught ea" "attempt b = Inl eb" "caught eb"
  shows "retry_loop url 3 (a # b # Parsed status_code data # script) w =
           (Some (Inr (status_code, data)), script,
            w\<lparr>gets := gets w @ [url, url, url], sleeps := sleeps w @ [30, 30]\<rparr>)"
  using assms by (simp add: retry_loop_caught retry_loop_parsed)

lemma retry_loop_three:
  assumes "attempt a = Inl ea" "caught ea" "attempt b = Inl eb" "caught eb"
    and "attempt c = Inl ec" "caught ec"
  shows "retry_loop url 3 (a # b # c # script) w =
           (Some (Inl ec), script,
            w\<lparr>gets := gets w @ [url, url, url], sleeps := sleeps w @ [30, 30]\<rparr>)"
  using assms by (simp add: retry_loop_caught)

lemma retry_loop_gets:
  "0 < counter \<Longrightarrow>
     length (gets (snd (snd (retry_loop url counter script w)))) \<le> length (gets w) + nat counter"
proof (induction script arbitrary: counter w)
  case Nil
  then show ?case by simp
next
  case (Cons oc script)
  show ?case
  proof (cases "attempt oc")
    case (Inr response)
    with Cons.prems show ?thesis by (simp add: retry_loop.simps(2) Let_def)
  next
    case (Inl e)
    show ?thesis
    proof (cases "caught e \<and> counter - 1 \<noteq> 0")
      case True
      then have "0 < counter - 1" using Cons.prems by simp
      moreover have "Suc (nat (counter - 1)) = nat counter" using Cons.prems by simp
      ultimately show ?thesis
        using Cons.IH [of "counter - 1" "w\<lparr>gets := gets w @ [url], sleeps := sleeps w @ [30]\<rparr>"]
          Inl True
        by (simp add: retry_loop_caught)
    next
      case False
      with Inl Cons.prems show ?thesis
        by (auto simp: retry_loop.simps(2) Let_def)
    qed
  qed
qed

text \<open>
  C1. One pass of the retry loop makes at most three attempts. When the first two
  attempts fail with an exception that the \<open>except\<close> clause catches (a connection error
  or a body that is not JSON) and the third returns status 200, \<open>request\<close> returns the
  decoded body after three calls of \<open>requests.get\<close> and exactly two sleeps of 30 seconds.
  When the third attempt fails in the same way, \<open>request\<close> raises that exception after
  the same three calls and two sleeps, and the rest of the script is not touched: there
  is no fourth attempt. On any script, one pass of the inner loop calls \<open>requests.get\<close>
  at most three times.
\<close>

theorem request_three_attempts:
  assumes "attempt a = Inl ea \<and> caught ea" and "attempt b = Inl eb \<and> caught eb"
  shows "request path query (a # b # Parsed 200 data # script) w =
           (Some (Inr data), script,
            w\<lparr>gets := gets w @ [(path, query), (path, query), (path, query)],
               sleeps := sleeps w @ [30, 30]\<rparr>)
       \<and> (attempt c = Inl ec \<and> caught ec \<longrightarrow>
            request path query (a # b # c # script) w =
              (Some (Inl ec), script,
               w\<lparr>gets := gets w @ [(path, query), (path, query), (path, query)],
                  sleeps := sleeps w @ [30, 30]\<rparr>))
       \<and> length (gets (snd (snd (retry_loop (path, query) 3 any_script w))))
           \<le> length (gets w) + 3"
proof (intro conjI impI)
  show "length (gets (snd (snd (retry_loop (path, query) 3 any_script w))))
           \<le> length (gets w) + 3"
    using retry_loop_gets [of 3 "(path, query)" any_script w] by simp
next
  show "request path query (a # b # Parsed 200 data # script) w =
           (Some (Inr data), script,
            w\<lparr>gets := gets w @ [(path, query), (path, query), (path, query)],
               sleeps := sleeps w @ [30, 30]\<rparr>)"
    using assms
    by (simp add: request_def request_loop.simps [of _ "a # b # Parsed 200 data # script"]
        retry_loop_two_then_parsed [of a ea b eb])
next
  assume "attempt c = Inl ec \<and> caught ec"
  then show "request path query (a # b # c # script) w =
              (Some (Inl ec), script,
               w\<lparr>gets := gets w @ [(path, query), (path, query), (path, query)],
                  sleeps := sleeps w @ [30, 30]\<rparr>)"
    using assms
    by (simp add: request_def request_loop.simps [of _ "a # b # c # script"]
        retry_loop_three [of a ea b eb c ec])
qed

theorem request_three_attempts_witness:
  "request ''/token'' [(''key'', ''k'')]
     [Raises ConnectionError, Unparsable 200, Parsed 200 (JObj [(''tokensLeft'', JInt 5)]),
      Parsed 200 JNull]
     \<lparr>gets = [], sleeps = []\<rparr>
   = (Some (Inr (JObj [(''tokensLeft'', JInt 5)])), [Parsed 200 JNull],
      \<lparr>gets = [(''/token'', [(''key'', ''k'')]), (''/token'', [(''key'', ''k'')]),
                (''/token'', [(''key'', ''k'')])],
        sleeps = [30, 30]\<rparr>)
   \<and> request ''/token'' [(''key'', ''k'')]
       [Raises ConnectionError, Unparsable 200, Raises ConnectionError, Parsed 200 JNull]
       \<lparr>gets = [], sleeps = []\<rparr>
     = (Some (Inl ConnectionError), [Parsed 200 JNull],
        \<lparr>gets = [(''/token'', [(''key'', ''k'')]), (''/token'', [(''key'', ''k'')]),
                  (''/token'', [(''key'', ''k'')])],
          sleeps = [30, 30]\<rparr>)"
proof -
  have a: "attempt (Raises ConnectionError) = Inl ConnectionError \<and> caught ConnectionError"
    by (simp add: attempt_def caught_def)
  have b: "attempt (Unparsable 200) = Inl JSONDecodeError \<and> caught JSONDecodeError"
    by (simp add: attempt_def caught_def)
  show ?thesis
    using request_three_attempts [OF a b, of "''/token''" "[(''key'', ''k'')]"
        "JObj [(''tokensLeft'', JInt 5)]" "[Parsed 200 JNull]" "\<lparr>gets = [], sleeps = []\<rparr>"
        "Raises ConnectionError" ConnectionError] a
    by simp
qed


lemma request_parsed:
  "request path query (Parsed status_code data # script) w =
     (let w' = w\<lparr>gets := gets w @ [(path, query)]\<rparr> in
      if status_code = 200 then (Some (Inr data), script, w')
      else
        (case map_of STATUS_CODES status_code of
           Some error \<Rightarrow>
             if status_code = 429 then
               (case getitem data ''refillIn'' of
                  Inl e \<Rightarrow> (Some (Inl e), script, w')
                | Inr refillIn \<Rightarrow>
                    (case ceil_div_1000 refillIn of
                       Inl e \<Rightarrow> (Some (Inl e), script, w')
                     | Inr delay \<Rightarrow>
                         (case getitem data ''tokensLeft'' of
                            Inl e \<Rightarrow> (Some (Inl e), script, w')
                          | Inr tokensLeft \<Rightarrow>
                              (case sleep delay w' of
                                 Inl e \<Rightarrow> (Some (Inl e), script, w')
                               | Inr w'' \<Rightarrow> request path query script w''))))
             else (Some (Inl (KeepaException error)), script, w')
         | None \<Rightarrow>
             (Some (Inl (KeepaException
                (''Unknown status code '' @ [CHR 0x22] @ py_str status_code @ [CHR 0x22]))),
              script, w')))"
  unfolding request_def
  by (simp add: request_loop.simps [of _ "Parsed status_code data # script"]
      retry_loop_parsed Let_def)


lemma status_codes_lookup:
  "map_of STATUS_CODES status_code =
     (if status_code = 400
        then Some ''Bad Request the request was malformed or could not successfully execute.''
      else if status_code = 402 then Some ''The used API key does not grant access.''
      else if status_code = 405 then Some ''A request parameter is out of allowed range.''
      else if status_code = 429 then Some ''You are out of tokens.''
      else if status_code = 500
        then Some ''An unexpected error occurred when executing this request.''
      else None)"
  by (simp add: STATUS_CODES_def)







text \<open>
  C3. A decoded response whose status is neither 200 nor 429 makes \<open>request\<close> raise
  \<open>KeepaException\<close> at once: one call of \<open>requests.get\<close>, no sleep, nothing more read
  from the script. For 400, 402, 405 and 500 the message is the text of \<open>STATUS_CODES\<close>,
  for any other status it is \<open>Unknown status code "<status>"\<close>.
\<close>

theorem request_error_status:
  assumes "status_code \<noteq> 200" and "status_code \<noteq> 429"
  shows "request path query (Parsed status_code data # script) w =
           (Some (Inl (KeepaException
              (if status_code = 400
                 then ''Bad Request the request was malformed or could not successfully execute.''
               else if status_code = 402 then ''The used API key does not grant access.''
               else if status_code = 405 then ''A request parameter is out of allowed range.''
               else if status_code = 500
                 then ''An unexpected error occurred when executing this request.''
               else ''Unknown status code '' @ [CHR 0x22] @ py_str status_code @ [CHR 0x22]))),
            script, w\<lparr>gets := gets w @ [(path, query)]\<rparr>)"
  using assms by (simp add: request_parsed status_codes_lookup)

theorem request_error_status_witness:
  "request ''/product'' [] [Parsed 402 JNull, Parsed 200 JNull] \<lparr>gets = [], sleeps = []\<rparr>
     = (Some (Inl (KeepaException ''The used API key does not grant access.'')),
        [Parsed 200 JNull], \<lparr>gets = [(''/product'', [])], sleeps = []\<rparr>)
   \<and> request ''/product'' [] [Parsed 418 JNull, Parsed 200 JNull] \<lparr>gets = [], sleeps = []\<rparr>
     = (Some (Inl (KeepaException (''Unknown status code '' @ [CHR 0x22] @ ''418'' @ [CHR 0x22]))),
        [Parsed 200 JNull], \<lparr>gets = [(''/product'', [])], sleeps = []\<rparr>)"
proof -
  have s: "py_str 418 = ''418''"
    by (simp add: py_str_def digits.simps)
  show ?thesis
    using request_error_status [of 402 "''/product''" "[]" JNull "[Parsed 200 JNull]"
        "\<lparr>gets = [], sleeps = []\<rparr>"]
      request_error_status [of 418 "''/product''" "[]" JNull "[Parsed 200 JNull]"
        "\<lparr>gets = [], sleeps = []\<rparr>"]
    by (simp add: s)
qed


section \<open>Properties of the call builders\<close>




section \<open>Properties of \<open>interpolate\<close>\<close>


lemma day_loop_done:
  "\<not> date1 \<le> today \<Longrightarrow> day_loop func today date1 date2 value1 value2 data results = Inr results"
  by (simp add: day_loop.simps)

lemma day_loop_step:
  assumes "date1 \<le> today" and "today < date_max"
    and "day_body func date1 date2 value1 value2 data = Inr (value1', date2', value2', data')"
  shows "day_loop func today date1 date2 value1 value2 data results =
           day_loop func today (date1 + 1) date2' value1' value2' data'
             (results @ [(date1, value1')])"
  using assms by (simp add: day_loop.simps [of _ _ date1] add_day_def)

lemma day_loop_Inr_unfold:
  assumes "day_loop func today date1 date2 value1 value2 data results = Inr res"
    and "date1 \<le> today"
  obtains value1' date2' value2' data' where
    "day_body func date1 date2 value1 value2 data = Inr (value1', date2', value2', data')"
    "day_loop func today (date1 + 1) date2' value1' value2' data'
       (results @ [(date1, value1')]) = Inr res"
  using assms
  by (auto simp: day_loop.simps [of _ _ date1] add_day_def split: sum.splits if_splits)

lemma day_loop_days:
  "day_loop func today date1 date2 value1 value2 data results = Inr res \<Longrightarrow>
     map fst res = map fst results @ [date1..today]"
proof (induction "nat (today + 1 - date1)"
    arbitrary: date1 date2 value1 value2 data results)
  case 0
  then have "\<not> date1 \<le> today" by simp
  with "0.prems" show ?case by (simp add: day_loop_done)
next
  case (Suc n)
  then have le: "date1 \<le> today" by simp
  from Suc.prems le obtain value1' date2' value2' data' where
    next_loop: "day_loop func today (date1 + 1) date2' value1' value2' data'
       (results @ [(date1, value1')]) = Inr res"
    by (rule day_loop_Inr_unfold)
  have "n = nat (today + 1 - (date1 + 1))" using Suc.hyps(2) by simp
  from Suc.hyps(1) [OF this next_loop]
  have "map fst res = map fst (results @ [(date1, value1')]) @ [date1 + 1..today]" .
  then show ?case using le by (simp add: upto_rec1)
qed


lemma same_day_loop_returns:
  assumes "\<forall>p \<in> set data. \<exists>d. gmdate (fst p) = Inr d"
  shows "\<exists>date2' value2' vals' data'.
           same_day_loop date1 date2 value2 vals data = Inr (date2', value2', vals', data')"
  using assms
proof (induction data arbitrary: date2 value2 vals)
  case Nil
  then show ?case by simp
next
  case (Cons p data)
  obtain timestamp2 v where p: "p = (timestamp2, v)" by (cases p)
  from Cons.prems p obtain d where d: "gmdate timestamp2 = Inr d" by auto
  show ?case
  proof (cases "date1 = d")
    case True
    have "\<forall>p \<in> set data. \<exists>d. gmdate (fst p) = Inr d" using Cons.prems by simp
    from Cons.IH [OF this, of d v "vals @ [v]"] show ?thesis
      using p d True by simp
  next
    case False
    then show ?thesis using p d by simp
  qed
qed

lemma same_day_loop_result:
  assumes "same_day_loop date1 date2 value2 vals data = Inr (date2', value2', vals', data')"
  shows "set data' \<subseteq> set data
       \<and> (vals \<noteq> [] \<longrightarrow> vals' \<noteq> [])
       \<and> (date2' = date2 \<or> (\<exists>p \<in> set data. gmdate (fst p) = Inr date2'))"
  using assms
proof (induction data arbitrary: date2 value2 vals)
  case Nil
  then show ?case by simp
next
  case (Cons p data)
  obtain timestamp2 v where p: "p = (timestamp2, v)" by (cases p)
  from Cons.prems p obtain d where d: "gmdate timestamp2 = Inr d"
    by (cases "gmdate timestamp2") auto
  show ?case
  proof (cases "date1 = d")
    case True
    with Cons.prems p d
    have "same_day_loop date1 d v (vals @ [v]) data = Inr (date2', value2', vals', data')"
      by simp
    from Cons.IH [OF this] show ?thesis using p d by auto
  next
    case False
    with Cons.prems p d show ?thesis by auto
  qed
qed

lemma day_body_returns:
  assumes "\<forall>p \<in> set data. \<exists>d. gmdate (fst p) = Inr d"
    and "\<forall>vals. vals \<noteq> [] \<longrightarrow> (\<exists>v. func vals = Inr v)"
  shows "\<exists>value1' date2' value2' data'.
           day_body func date1 date2 value1 value2 data = Inr (value1', date2', value2', data')"
proof (cases "date1 = date2")
  case True
  from same_day_loop_returns [OF assms(1), of date1 date2 value2 "[value2]"]
  obtain date2' value2' vals' data' where
    l: "same_day_loop date1 date2 value2 [value2] data = Inr (date2', value2', vals', data')"
    by blast
  from same_day_loop_result [OF l] have "vals' \<noteq> []" by simp
  with assms(2) obtain v where "func vals' = Inr v" by blast
  with l True show ?thesis by (simp add: day_body_def)
next
  case False
  then show ?thesis by (simp add: day_body_def)
qed

lemma day_body_result:
  assumes "day_body func date1 date2 value1 value2 data = Inr (value1', date2', value2', data')"
  shows "set data' \<subseteq> set data
       \<and> (date2' = date2 \<or> (\<exists>p \<in> set data. gmdate (fst p) = Inr date2'))
       \<and> (date1 \<noteq> date2 \<longrightarrow> value1' = value1)"
proof (cases "date1 = date2")
  case True
  with assms obtain vals' where
    "same_day_loop date1 date2 value2 [value2] data = Inr (date2', value2', vals', data')"
    by (auto simp: day_body_def split: sum.splits)
  from same_day_loop_result [OF this] True show ?thesis by simp
next
  case False
  with assms show ?thesis by (simp add: day_body_def)
qed

lemma day_loop_returns:
  assumes "\<forall>p \<in> set data. \<exists>d. gmdate (fst p) = Inr d"
    and "\<forall>vals. vals \<noteq> [] \<longrightarrow> (\<exists>v. func vals = Inr v)"
    and "today < date_max"
  shows "\<exists>res. day_loop func today date1 date2 value1 value2 data results = Inr res"
  using assms(1)
proof (induction "nat (today + 1 - date1)"
    arbitrary: date1 date2 value1 value2 data results)
  case 0
  then have "\<not> date1 \<le> today" by simp
  then show ?case by (simp add: day_loop_done)
next
  case (Suc n)
  then have le: "date1 \<le> today" by simp
  from day_body_returns [OF Suc.prems assms(2), of date1 date2 value1 value2]
  obtain value1' date2' value2' data' where
    b: "day_body func date1 date2 value1 value2 data = Inr (value1', date2', value2', data')"
    by blast
  from day_body_result [OF b] Suc.prems
  have v: "\<forall>p \<in> set data'. \<exists>d. gmdate (fst p) = Inr d" by blast
  have "n = nat (today + 1 - (date1 + 1))" using Suc.hyps(2) by simp
  from Suc.hyps(1) [OF this v]
  show ?case by (simp add: day_loop_step [OF le assms(3) b])
qed



lemma py_min_returns: "\<forall>vals. vals \<noteq> [] \<longrightarrow> (\<exists>v. py_min vals = Inr v)"
  by (auto simp: py_min_def split: list.splits)



lemma day_loop_carry:
  assumes "day_loop func today date1 date2 value1 value2 data results = Inr res"
    and "date2 \<in> D"
    and "\<forall>p \<in> set data. \<forall>d. gmdate (fst p) = Inr d \<longrightarrow> d \<in> D"
  shows "\<exists>ext. res = results @ ext
           \<and> (\<forall>j < length ext. fst (ext ! j) \<notin> D \<longrightarrow>
                 snd (ext ! j) = (if j = 0 then value1 else snd (ext ! (j - 1))))"
  using assms
proof (induction "nat (today + 1 - date1)"
    arbitrary: date1 date2 value1 value2 data results)
  case 0
  then have "\<not> date1 \<le> today" by simp
  with "0.prems"(1) have "res = results" by (simp add: day_loop_done)
  then show ?case by simp
next
  case (Suc n)
  then have le: "date1 \<le> today" by simp
  from Suc.prems(1) le obtain value1' date2' value2' data' where
    b: "day_body func date1 date2 value1 value2 data = Inr (value1', date2', value2', data')"
    and l: "day_loop func today (date1 + 1) date2' value1' value2' data'
       (results @ [(date1, value1')]) = Inr res"
    by (rule day_loop_Inr_unfold)
  note r = day_body_result [OF b]
  have d2: "date2' \<in> D" using r Suc.prems(2,3) by auto
  have dt: "\<forall>p \<in> set data'. \<forall>d. gmdate (fst p) = Inr d \<longrightarrow> d \<in> D"
    using r Suc.prems(3) by blast
  have "n = nat (today + 1 - (date1 + 1))" using Suc.hyps(2) by simp
  from Suc.hyps(1) [OF this l d2 dt] obtain ext' where
    res: "res = (results @ [(date1, value1')]) @ ext'"
    and c: "\<forall>j < length ext'. fst (ext' ! j) \<notin> D \<longrightarrow>
              snd (ext' ! j) = (if j = 0 then value1' else snd (ext' ! (j - 1)))"
    by blast
  let ?ext = "(date1, value1') # ext'"
  have "\<forall>j < length ?ext. fst (?ext ! j) \<notin> D \<longrightarrow>
          snd (?ext ! j) = (if j = 0 then value1 else snd (?ext ! (j - 1)))"
  proof (intro allI impI)
    fix j
    assume j: "j < length ?ext" and nd: "fst (?ext ! j) \<notin> D"
    show "snd (?ext ! j) = (if j = 0 then value1 else snd (?ext ! (j - 1)))"
    proof (cases j)
      case 0
      with nd have "date1 \<notin> D" by simp
      with Suc.prems(2) have "date1 \<noteq> date2" by auto
      with r have "value1' = value1" by simp
      with 0 show ?thesis by simp
    next
      case (Suc k)
      with j nd have k: "k < length ext'" and "fst (ext' ! k) \<notin> D" by simp_all
      with c have "snd (ext' ! k) = (if k = 0 then value1' else snd (ext' ! (k - 1)))"
        by blast
      then show ?thesis using Suc by (cases k) simp_all
    qed
  qed
  moreover have "res = results @ ?ext" using res by simp
  ultimately show ?case by blast
qed

text \<open>
  C6. Under the same conditions on the dates, the reducer and \<open>today\<close>, every emitted
  entry but the first whose day is the date of no sample repeats the value of the entry
  before it, for the next day. In the loop body: when \<open>date1\<close> differs from the cursor's
  \<open>date2\<close>, \<open>value1\<close> and the cursor are left as they are, so \<open>(date1, value1)\<close> is
  what is appended.
\<close>

theorem interpolate_holds_last_value:
  assumes "\<forall>p \<in> set (formatted csv_data 0). \<exists>d. gmdate (fst p) = Inr d"
    and "\<forall>vals. vals \<noteq> [] \<longrightarrow> (\<exists>v. func vals = Inr v)"
    and "today < date_max"
  shows "(\<exists>res. interpolate csv_data func today = Inr res
            \<and> (\<forall>j. 0 < j \<and> j < length res
                   \<and> (\<forall>p \<in> set (formatted csv_data 0). gmdate (fst p) \<noteq> Inr (fst (res ! j)))
                 \<longrightarrow> res ! j = (fst (res ! (j - 1)) + 1, snd (res ! (j - 1)))))
       \<and> (date1 \<noteq> date2 \<longrightarrow>
            day_body func date1 date2 value1 value2 data = Inr (value1, date2, value2, data))"
proof (intro conjI impI)
  assume "date1 \<noteq> date2"
  then show "day_body func date1 date2 value1 value2 data = Inr (value1, date2, value2, data)"
    by (simp add: day_body_def)
next
  let ?D = "{d. \<exists>p \<in> set (formatted csv_data 0). gmdate (fst p) = Inr d}"
  show "\<exists>res. interpolate csv_data func today = Inr res
            \<and> (\<forall>j. 0 < j \<and> j < length res
                   \<and> (\<forall>p \<in> set (formatted csv_data 0). gmdate (fst p) \<noteq> Inr (fst (res ! j)))
                 \<longrightarrow> res ! j = (fst (res ! (j - 1)) + 1, snd (res ! (j - 1))))"
  proof (cases "formatted csv_data 0")
    case Nil
    then show ?thesis by (simp add: interpolate_def)
  next
    case (Cons p rest)
    obtain timestamp1 v1 where p: "p = (timestamp1, v1)" by (cases p)
    from assms(1) Cons p obtain d1 where d: "gmdate timestamp1 = Inr d1" by auto
    have "\<forall>p \<in> set rest. \<exists>d. gmdate (fst p) = Inr d" using assms(1) Cons by simp
    from day_loop_returns [OF this assms(2,3), of d1 d1 v1 v1 "[]"]
    obtain res where r: "day_loop func today d1 d1 v1 v1 rest [] = Inr res"
      by blast
    have i: "interpolate csv_data func today = Inr res"
      using Cons p d r by (simp add: interpolate_def)
    have m: "map fst res = [d1..today]"
      using day_loop_days [OF r] by simp
    have "d1 \<in> ?D" using Cons p d by auto
    moreover have "\<forall>q \<in> set rest. \<forall>d. gmdate (fst q) = Inr d \<longrightarrow> d \<in> ?D"
      using Cons by auto
    ultimately obtain ext where "res = [] @ ext"
      and c: "\<forall>j < length ext. fst (ext ! j) \<notin> ?D \<longrightarrow>
                snd (ext ! j) = (if j = 0 then v1 else snd (ext ! (j - 1)))"
      using day_loop_carry [OF r, of ?D] by blast
    then have ext: "ext = res" by simp
    have "\<forall>j. 0 < j \<and> j < length res
            \<and> (\<forall>p \<in> set (formatted csv_data 0). gmdate (fst p) \<noteq> Inr (fst (res ! j)))
          \<longrightarrow> res ! j = (fst (res ! (j - 1)) + 1, snd (res ! (j - 1)))"
    proof (intro allI impI)
      fix j
      assume a: "0 < j \<and> j < length res
            \<and> (\<forall>p \<in> set (formatted csv_data 0). gmdate (fst p) \<noteq> Inr (fst (res ! j)))"
      then have "fst (res ! j) \<notin> ?D" by auto
      with c a ext have s: "snd (res ! j) = snd (res ! (j - 1))" by auto
      have len: "length res = length [d1..today]" using m by (metis length_map)
      have "fst (res ! j) = [d1..today] ! j" using a m by (metis nth_map)
      moreover have "fst (res ! (j - 1)) = [d1..today] ! (j - 1)"
        using a m by (metis nth_map less_imp_diff_less)
      moreover from a have "j < length res" by simp
      with len have "d1 + int j \<le> today" by simp
      then have "[d1..today] ! j = d1 + int j" "[d1..today] ! (j - 1) = d1 + int (j - 1)"
        by (simp_all add: nth_upto)
      ultimately have "fst (res ! j) = fst (res ! (j - 1)) + 1" using a by simp
      with s show "res ! j = (fst (res ! (j - 1)) + 1, snd (res ! (j - 1)))"
        by (simp add: prod_eq_iff)
    qed
    with i show ?thesis by blast
  qed
qed

theorem interpolate_holds_last_value_witness:
  "interpolate [0, 100, 1440, 50] py_min 14978
     = Inr [(14975, 100), (14976, 50), (14977, 50), (14978, 50)]
   \<and> ([(14975, 100), (14976, 50), (14977, 50), (14978, 50)] :: (date \<times> int) list) ! 2
     = (fst (([(14975, 100), (14976, 50), (14977, 50), (14978, 50)] :: (date \<times> int) list) ! 1)
          + 1, 50)"
proof -
  let ?raw = "[0, 100, 1440, 50] :: int list"
  let ?out = "[(14975, 100), (14976, 50), (14977, 50), (14978, 50)] :: (int \<times> int) list"
  have v: "\<forall>p \<in> set (formatted ?raw 0). \<exists>d. gmdate (fst p) = Inr d"
    by (simp add: formatted_zero gmdate_def date_min_def date_max_def)
  have t: "(14978 :: int) < date_max" by (simp add: date_max_def)
  have e: "interpolate ?raw py_min 14978 = Inr ?out"
    by (simp add: interpolate_def formatted_zero gmdate_def date_min_def date_max_def
        day_loop.simps day_body_def add_day_def py_min_def)
  from interpolate_holds_last_value [OF v py_min_returns t]
  have "\<forall>j. 0 < j \<and> j < length ?out
          \<and> (\<forall>p \<in> set (formatted ?raw 0). gmdate (fst p) \<noteq> Inr (fst (?out ! j)))
        \<longrightarrow> ?out ! j = (fst (?out ! (j - 1)) + 1, snd (?out ! (j - 1)))"
    unfolding e by blast
  moreover have "\<forall>p \<in> set (formatted ?raw 0). gmdate (fst p) \<noteq> Inr (fst (?out ! 2))"
    by (simp add: formatted_zero gmdate_def date_min_def date_max_def)
  ultimately have "?out ! 2 = (fst (?out ! (2 - 1)) + 1, snd (?out ! (2 - 1)))"
    by (simp del: nth_Cons_numeral)
  then show ?thesis using e by simp
qed











end
